theory Spec2Isabelle
  imports Main "HOL-Library.Sublist"
begin

section \<open>Python string operations used by diff.py\<close>

text \<open>
  Text is modelled as \<open>string\<close> (a list of 8-bit characters); the diff text handled by
  the plugin is taken to be ASCII. \<open>str.startswith\<close> is \<^const>\<open>prefix\<close>.
\<close>

abbreviation nl :: char where
  "nl \<equiv> CHR 0x0A"

text \<open>The ASCII characters that \<open>str.strip\<close> and \<open>str.rstrip\<close> remove.\<close>

definition is_space :: "char \<Rightarrow> bool" where
  "is_space c = (c \<in> set [CHR 0x09, CHR 0x0A, CHR 0x0B, CHR 0x0C, CHR 0x0D,
                           CHR 0x1C, CHR 0x1D, CHR 0x1E, CHR 0x1F, CHR 0x20])"

definition rstrip :: "string \<Rightarrow> string" where
  "rstrip s = rev (dropWhile is_space (rev s))"

definition strip :: "string \<Rightarrow> string" where
  "strip s = dropWhile is_space (rstrip s)"

text \<open>\<open>s.split(c)\<close>: always at least one piece; the empty string gives one empty piece.\<close>

fun split_on :: "char \<Rightarrow> string \<Rightarrow> string list" where
  "split_on c [] = [[]]"
| "split_on c (x # xs) =
     (if x = c then [] # split_on c xs
      else (let r = split_on c xs in (x # hd r) # tl r))"

text \<open>\<open>sub in s\<close> on strings: \<open>sub\<close> occurs as a contiguous piece of \<open>s\<close>.\<close>

fun py_in :: "string \<Rightarrow> string \<Rightarrow> bool" where
  "py_in sub [] = (sub = [])"
| "py_in sub (c # cs) = (prefix sub (c # cs) \<or> py_in sub cs)"

text \<open>
  \<open>os.path.join(a, b)\<close> for two components, as \<open>posixpath\<close> computes it: an absolute
  \<open>b\<close> replaces \<open>a\<close>; otherwise the two are joined with one separator unless \<open>a\<close> is
  empty or already ends with one.
\<close>

definition path_join :: "string \<Rightarrow> string \<Rightarrow> string" where
  "path_join a b =
     (if prefix ''/'' b then b
      else if a = [] \<or> last a = CHR ''/'' then a @ b
      else a @ ''/'' @ b)"

section \<open>Observable effects and uncaught exceptions\<close>

text \<open>
  Every call into the host editor or the command runner is recorded, in order, as an
  event. \<open>RunCommand\<close> is \<open>self.run_command(command, ...)\<close>; \<open>Panel\<close> and \<open>Scratch\<close>
  are \<open>self.panel(text)\<close> and \<open>self.scratch(text)\<close>; \<open>StatusMessage\<close> is
  \<open>sublime.status_message\<close>; \<open>ShowInputPanel caption initial\<close> is
  \<open>window.show_input_panel\<close>; \<open>SettingsSet key value\<close> is \<open>view.settings().set\<close>;
  \<open>OpenFile\<close> is \<open>window.open_file\<close>; \<open>GotoXY line column\<close> is the deferred
  \<open>goto_xy(new_view, line, column)\<close>.
\<close>

datatype event =
    RunCommand "string list"
  | Panel string
  | Scratch string
  | StatusMessage string
  | ShowInputPanel string string
  | SettingsSet string string
  | OpenFile string
  | GotoXY int int

text \<open>
  The Python exceptions the code can raise and never catches, named by the operation
  that raises: reading an attribute that was never assigned, \<open>re.match(pattern, None)\<close>,
  \<open>os.path.join(base, None)\<close> and \<open>os.path.isfile(None)\<close>.
\<close>

datatype exn =
    NoAttribute string
  | ReMatchOnNone
  | PathJoinOnNone
  | IsfileOnNone

text \<open>
  A method either returns (\<open>Done\<close>) or raises (\<open>Raised\<close>); both carry the state
  reached, so the effects performed before an exception stay visible.
\<close>

datatype 'a outcome = Done 'a | Raised exn 'a

text \<open>What every command object of the model carries: the effects performed so far.\<close>

record cmd =
  events :: "event list"

definition emit :: "event \<Rightarrow> 'a cmd_scheme \<Rightarrow> 'a cmd_scheme" where
  "emit e st = st\<lparr>events := events st @ [e]\<rparr>"

section \<open>GitDiff\<close>

text \<open>
  The collaborators of \<open>GitDiff\<close> that are not part of diff.py are parameters: the
  two settings of \<open>Git.sublime-settings\<close> that decide what is done,
  \<open>self.get_file_name()\<close>, and the text that each external command delivers to its
  completion callback. The setting \<open>diff_syntax\<close> only names the highlighting of the
  displayed text and is left out, as is the flag \<open>show_status\<close> of \<open>run_command\<close>.
\<close>

record diff_env =
  diff_untracked_files :: bool
  diff_panel :: bool
  get_file_name :: string
  git :: "string list \<Rightarrow> string"

text \<open>
  The command object. \<open>empty_stages\<close> is \<open>None\<close> while the attribute has not been
  assigned; only \<open>stage_untracked_files_result\<close> assigns it.
\<close>

record diff_self = cmd +
  ignore_whitespace :: bool
  empty_stages :: "string list option"

text \<open>
  \<open>run_command(command, callback)\<close>: the command is issued, and when it has finished
  the callback receives its output. Without a callback nothing of diff.py runs after it.
\<close>

definition run_command ::
  "diff_env \<Rightarrow> string list \<Rightarrow> (string \<Rightarrow> diff_self \<Rightarrow> diff_self outcome) \<Rightarrow>
   diff_self \<Rightarrow> diff_self outcome" where
  "run_command env command callback st = callback (git env command) (emit (RunCommand command) st)"

definition run_command_nocb :: "diff_env \<Rightarrow> string list \<Rightarrow> diff_self \<Rightarrow> diff_self outcome" where
  "run_command_nocb env command st = Done (emit (RunCommand command) st)"

definition reset_untracked_files :: "diff_env \<Rightarrow> diff_self \<Rightarrow> diff_self outcome" where
  "reset_untracked_files env st =
     (case empty_stages st of
        None \<Rightarrow> Raised (NoAttribute ''empty_stages'') st
      | Some es \<Rightarrow>
          if length es > 0
          then run_command_nocb env ([''git'', ''reset'', ''--quiet'', ''--''] @ es) st
          else Done st)"

definition diff_done :: "diff_env \<Rightarrow> string \<Rightarrow> diff_self \<Rightarrow> diff_self outcome" where
  "diff_done env result st =
     (if strip result = [] then Done (emit (Panel ''No output'') st)
      else reset_untracked_files env
             (if diff_panel env then emit (Panel result) st else emit (Scratch result) st))"

definition continue_diff :: "diff_env \<Rightarrow> diff_self \<Rightarrow> diff_self outcome" where
  "continue_diff env st =
     (let command = [''git'', ''diff'', ''--no-color''];
          command = (if ignore_whitespace st
                     then command @ [''--ignore-all-space'', ''--ignore-blank-lines'']
                     else command);
          command = command @ [''--'', get_file_name env]
      in run_command env command (diff_done env) st)"

definition stage_untracked_files_result :: "diff_env \<Rightarrow> string \<Rightarrow> diff_self \<Rightarrow> diff_self outcome" where
  "stage_untracked_files_result env result st =
     (let lines = split_on nl (rstrip result);
          es = map (drop 3) (filter (prefix ''??'') lines);
          st = st\<lparr>empty_stages := Some es\<rparr>
      in if length es > 0
         then run_command env [''git'', ''add'', ''.'', ''-N''] (\<lambda>_. continue_diff env) st
         else Done st)"

definition stage_untracked_files :: "diff_env \<Rightarrow> diff_self \<Rightarrow> diff_self outcome" where
  "stage_untracked_files env st =
     run_command env [''git'', ''status'', ''-uall'', ''--porcelain'']
       (stage_untracked_files_result env) st"

text \<open>\<open>GitDiff.run\<close>; \<open>self.edit\<close> is stored and never read, so it is left out.\<close>

definition diff_run :: "diff_env \<Rightarrow> bool \<Rightarrow> diff_self \<Rightarrow> diff_self outcome" where
  "diff_run env ignore_ws st =
     (let st = st\<lparr>ignore_whitespace := ignore_ws\<rparr>
      in if diff_untracked_files env then stage_untracked_files env st
         else continue_diff env st)"

text \<open>A command object on which no attribute has been assigned and nothing has happened.\<close>

definition fresh_self :: diff_self where
  "fresh_self = \<lparr>events = [], ignore_whitespace = False, empty_stages = None\<rparr>"

text \<open>
  A repository answering the commands with fixed texts: \<open>status_out\<close> for the status
  query, \<open>diff_out\<close> for the diff, nothing for every other command.
\<close>

definition fixed_git :: "string \<Rightarrow> string \<Rightarrow> string list \<Rightarrow> string" where
  "fixed_git status_out diff_out command =
     (if prefix [''git'', ''status''] command then status_out
      else if prefix [''git'', ''diff''] command then diff_out
      else [])"

section \<open>The view: lines and regions\<close>

text \<open>
  Points are character offsets into the text, \<open>0 \<le> p \<le> length text\<close>.
  \<open>view.line(p)\<close> is the region of the line that contains \<open>p\<close>, without its newline:
  it begins after the last newline before \<open>p\<close> (or at 0) and ends at the first newline at
  or after \<open>p\<close> (or at the end of the text). \<open>view.substr(Region(a, b))\<close> is the text
  between the two points.
\<close>

definition line_a :: "string \<Rightarrow> nat \<Rightarrow> nat" where
  "line_a s p = p - length (takeWhile (\<lambda>c. c \<noteq> nl) (rev (take p s)))"

definition line_b :: "string \<Rightarrow> nat \<Rightarrow> nat" where
  "line_b s p = p + length (takeWhile (\<lambda>c. c \<noteq> nl) (drop p s))"

definition substr :: "string \<Rightarrow> nat \<Rightarrow> nat \<Rightarrow> string" where
  "substr s a b = take (b - a) (drop a s)"

section \<open>The hunk header pattern\<close>

text \<open>
  \<open>re.match(r"^@@ -(\d+)(,(\d+))? \+(\d+)(,(\d+))? @@.*", line)\<close>, piece by piece. Each
  \<open>\d+\<close> is followed in the pattern by a literal that is not a digit, and each optional
  group begins with a comma where the pattern otherwise continues with a space, so the
  greedy choice is the only one that can succeed and no backtracking is needed. The
  final \<open>.*\<close> accepts whatever follows. The result holds the groups 1, 3, 4 and 6.
\<close>

definition is_digit :: "char \<Rightarrow> bool" where
  "is_digit c = (c \<in> set ''0123456789'')"

definition re_lit :: "string \<Rightarrow> string \<Rightarrow> string option" where
  "re_lit p s = (if prefix p s then Some (drop (length p) s) else None)"

definition re_digits :: "string \<Rightarrow> (string \<times> string) option" where
  "re_digits s =
     (let d = takeWhile is_digit s
      in if d = [] then None else Some (d, dropWhile is_digit s))"

definition re_opt_len :: "string \<Rightarrow> string option \<times> string" where
  "re_opt_len s =
     (case re_lit '','' s of
        None \<Rightarrow> (None, s)
      | Some r \<Rightarrow> (case re_digits r of None \<Rightarrow> (None, s) | Some (d, r') \<Rightarrow> (Some d, r')))"

definition hunk_re :: "string \<Rightarrow> (string \<times> string option \<times> string \<times> string option) option" where
  "hunk_re s =
     (case re_lit ''@@ -'' s of None \<Rightarrow> None | Some r1 \<Rightarrow>
     (case re_digits r1 of None \<Rightarrow> None | Some (g1, r2) \<Rightarrow>
     (case re_opt_len r2 of (g3, r3) \<Rightarrow>
     (case re_lit '' +'' r3 of None \<Rightarrow> None | Some r4 \<Rightarrow>
     (case re_digits r4 of None \<Rightarrow> None | Some (g4, r5) \<Rightarrow>
     (case re_opt_len r5 of (g6, r6) \<Rightarrow>
     (case re_lit '' @@'' r6 of None \<Rightarrow> None | Some r7 \<Rightarrow>
        Some (g1, g3, g4, g6))))))))"

text \<open>\<open>int(s)\<close> on a string of decimal digits.\<close>

definition digit_val :: "char \<Rightarrow> int" where
  "digit_val c = int (of_char c) - 48"

definition int_of_digits :: "string \<Rightarrow> int" where
  "int_of_digits s = foldl (\<lambda>n c. 10 * n + digit_val c) 0 s"

text \<open>
  The pattern as the set of lines it describes: \<open>a\<close> and \<open>c\<close> are the two start
  numbers, \<open>b\<close> and \<open>d\<close> the optional lengths, and anything may follow the closing
  \<open>@@\<close>.
\<close>

definition digit_string :: "string \<Rightarrow> bool" where
  "digit_string d = (d \<noteq> [] \<and> list_all is_digit d)"

definition opt_len :: "string option \<Rightarrow> string" where
  "opt_len x = (case x of None \<Rightarrow> [] | Some d \<Rightarrow> '','' @ d)"

definition opt_digit_string :: "string option \<Rightarrow> bool" where
  "opt_digit_string x = (case x of None \<Rightarrow> True | Some d \<Rightarrow> digit_string d)"

definition hunk_pattern ::
  "string \<Rightarrow> string \<Rightarrow> string option \<Rightarrow> string \<Rightarrow> string option \<Rightarrow> bool" where
  "hunk_pattern line a b c d =
     (digit_string a \<and> opt_digit_string b \<and> digit_string c \<and> opt_digit_string d \<and>
      prefix (''@@ -'' @ a @ opt_len b @ '' +'' @ c @ opt_len d @ '' @@'') line)"

section \<open>GitGotoDiff\<close>

text \<open>
  The view the command runs on: its text, the caret \<open>v.sel()[0].a\<close>, and
  \<open>v.scope_name\<close> at the caret, which comes from the editor's syntax highlighting.
\<close>

record view =
  content :: string
  sel_a :: nat
  scope_name :: string

text \<open>
  The surroundings: \<open>os.path.isfile\<close>, the folder that
  \<open>get_open_folder_from_window\<close> reports, \<open>git_root\<close>, and what the user answers to the
  input panel with a given caption and initial text (\<open>None\<close>: the panel is cancelled).
\<close>

record goto_env =
  isfile :: "string \<Rightarrow> bool"
  window_folder :: "string option"
  git_root :: "string \<Rightarrow> string option"
  user_input :: "string \<Rightarrow> string \<Rightarrow> string option"

text \<open>
  The command object together with the view's settings, the only persisted state.
  \<open>column\<close>, \<open>file_name\<close> and \<open>goto_line\<close> are assigned by \<open>run\<close> before they are read.
\<close>

record goto_self = cmd +
  column :: int
  file_name :: "string option"
  goto_line :: int
  settings :: "string \<rightharpoonup> string"

text \<open>Python truth of an optional string: \<open>None\<close> and the empty string are false.\<close>

definition truthy :: "string option \<Rightarrow> bool" where
  "truthy x = (case x of None \<Rightarrow> False | Some s \<Rightarrow> s \<noteq> [])"

text \<open>
  The \<open>while pt > 0\<close> loop of \<open>run\<close>, from the values of \<open>pt\<close>, \<open>hunk_line\<close> and
  \<open>line_offset\<close> at its head; it returns \<open>self.file_name\<close>, \<open>hunk_line\<close> and
  \<open>line_offset\<close> as they are when the loop is left.
\<close>

function scan_up ::
  "string \<Rightarrow> nat \<Rightarrow> string option \<Rightarrow> int \<Rightarrow> string option \<times> string option \<times> int" where
  "scan_up txt pt hunk_line line_offset =
     (if pt > 0 then
        (if prefix ''@@'' (substr txt (line_a txt pt) (line_b txt pt)) then
           scan_up txt (line_a txt (pt - 1))
             (if \<not> truthy hunk_line then Some (substr txt (line_a txt pt) (line_b txt pt))
              else hunk_line)
             line_offset
         else if prefix ''+++ b/'' (substr txt (line_a txt pt) (line_b txt pt)) then
           (Some (strip (substr txt (line_a txt pt + 6) (line_b txt pt))), hunk_line, line_offset)
         else if \<not> truthy hunk_line \<and> \<not> prefix ''-'' (substr txt (line_a txt pt) (line_b txt pt)) then
           scan_up txt (line_a txt (pt - 1)) hunk_line (line_offset + 1)
         else
           scan_up txt (line_a txt (pt - 1)) hunk_line line_offset)
      else (None, hunk_line, line_offset))"
  by pat_completeness auto
termination
  by (relation "measure (\<lambda>(txt, pt, hunk_line, line_offset). pt)") (auto simp: line_a_def)

text \<open>
  Lines 127 to 133: the header is matched and its group 4 converted. \<open>Inr None\<close> is the
  branch \<open>if not hunk\<close>; matching against \<open>None\<close> raises.
\<close>

definition parse_hunk :: "string option \<Rightarrow> exn + int option" where
  "parse_hunk hunk_line =
     (case hunk_line of
        None \<Rightarrow> Inl ReMatchOnNone
      | Some h \<Rightarrow>
          Inr (case hunk_re h of
                 None \<Rightarrow> None
               | Some (g1, g3, g4, g6) \<Rightarrow> Some (int_of_digits g4)))"

definition on_path_confirmed :: "string \<Rightarrow> goto_self \<Rightarrow> goto_self outcome" where
  "on_path_confirmed git_root_dir st =
     (let old_git_root_dir = settings st ''git_root_dir'';
          st = (if old_git_root_dir \<noteq> Some git_root_dir
                then emit (SettingsSet ''git_root_dir'' git_root_dir)
                       (st\<lparr>settings := (settings st)(''git_root_dir'' \<mapsto> git_root_dir)\<rparr>)
                else st)
      in case file_name st of
           None \<Rightarrow> Raised PathJoinOnNone st
         | Some fn \<Rightarrow>
             Done (emit (GotoXY (goto_line st) (column st))
                    (emit (OpenFile (path_join git_root_dir fn)) st)))"

text \<open>The base directory that lines 135 to 139 arrive at.\<close>

definition candidate_base :: "goto_env \<Rightarrow> goto_self \<Rightarrow> string option" where
  "candidate_base env st =
     (let git_root_dir = settings st ''git_root_dir''
      in if \<not> truthy git_root_dir
         then (case window_folder env of
                 None \<Rightarrow> None
               | Some working_dir \<Rightarrow> if working_dir \<noteq> [] then git_root env working_dir else None)
         else git_root_dir)"

text \<open>Lines 135 to 158: the file is looked for and either opened or asked for.\<close>

definition resolve_path :: "goto_env \<Rightarrow> goto_self \<Rightarrow> goto_self outcome" where
  "resolve_path env st =
     (let git_root_dir = candidate_base env st
      in if truthy git_root_dir then
           (case file_name st of
              None \<Rightarrow> Raised PathJoinOnNone st
            | Some fn \<Rightarrow>
                if \<not> isfile env (path_join (the git_root_dir) fn) then
                  (let caption = ''Enter base directory for file '' @ [CHR 0x27] @ fn @ [CHR 0x27] @ '':'';
                       st = emit (ShowInputPanel caption (the git_root_dir)) st
                   in case user_input env caption (the git_root_dir) of
                        None \<Rightarrow> Done st
                      | Some d \<Rightarrow> on_path_confirmed d st)
                else on_path_confirmed (the git_root_dir) st)
         else
           (case file_name st of
              None \<Rightarrow> Raised IsfileOnNone st
            | Some fn \<Rightarrow>
                if \<not> isfile env fn then
                  (let caption = ''Enter base directory for file '' @ [CHR 0x27] @ fn @ [CHR 0x27] @ '':'';
                       st = emit (ShowInputPanel caption []) st
                   in case user_input env caption [] of
                        None \<Rightarrow> Done st
                      | Some d \<Rightarrow> on_path_confirmed d st)
                else on_path_confirmed [] st))"

text \<open>\<open>GitGotoDiff.run\<close>.\<close>

definition goto_run :: "goto_env \<Rightarrow> view \<Rightarrow> goto_self \<Rightarrow> goto_self outcome" where
  "goto_run env v st =
     (let scope_markup_inserted = py_in ''markup.inserted.diff'' (scope_name v);
          scope_markup_deleted = py_in ''markup.deleted.diff'' (scope_name v)
      in if \<not> scope_markup_inserted \<and> \<not> scope_markup_deleted then Done st
         else
           (let beg = sel_a v;
                pt = line_a (content v) beg;
                st = st\<lparr>column := int beg - int pt - 1, file_name := None\<rparr>
            in case scan_up (content v) pt None 0 of
                 (fn, hunk_line, line_offset) \<Rightarrow>
                   (let st = st\<lparr>file_name := fn\<rparr>
                    in case parse_hunk hunk_line of
                         Inl e \<Rightarrow> Raised e st
                       | Inr None \<Rightarrow> Done (emit (StatusMessage ''No hunk info'') st)
                       | Inr (Some hunk_start_line) \<Rightarrow>
                           resolve_path env
                             (st\<lparr>goto_line := hunk_start_line + line_offset - 1\<rparr>))))"

text \<open>A command object before its first run, on a view with no stored settings.\<close>

definition fresh_goto :: goto_self where
  "fresh_goto = \<lparr>events = [], column = 0, file_name = None, goto_line = 0, settings = Map.empty\<rparr>"

text \<open>Reading an outcome: the state reached, and the exception if one was raised.\<close>

fun final :: "'a outcome \<Rightarrow> 'a" where
  "final (Done st) = st"
| "final (Raised e st) = st"

fun raised :: "'a outcome \<Rightarrow> exn option" where
  "raised (Done st) = None"
| "raised (Raised e st) = Some e"

section \<open>Example inputs\<close>

text \<open>
  A working tree for \<open>GitDiff\<close>: the current file is \<open>a.txt\<close>, the diff goes to a
  scratch view, and the status query and the diff answer with the given texts.
\<close>

definition tree :: "bool \<Rightarrow> string \<Rightarrow> string \<Rightarrow> diff_env" where
  "tree untracked status_out diff_out =
     \<lparr>diff_untracked_files = untracked, diff_panel = False, get_file_name = ''a.txt'',
      git = fixed_git status_out diff_out\<rparr>"

text \<open>Diff views for \<open>GitGotoDiff\<close>, given by their lines.\<close>

definition unlines :: "string list \<Rightarrow> string" where
  "unlines ls = concat (map (\<lambda>l. l @ [nl]) ls)"

definition foo_diff :: string where
  "foo_diff = unlines [''diff --git a/src/foo.txt b/src/foo.txt'', ''--- a/src/foo.txt'',
     ''+++ b/src/foo.txt'', ''@@ -10,2 +10,3 @@'', '' context'', ''+added'']"

definition synthetic_diff :: string where
  "synthetic_diff = unlines [''--- a/f.txt'', ''+++ b/f.txt'', ''@@ -1,3 +1,4 @@'',
     ''+x'', ''+y'', '' z'', ''-w'']"

definition marker_first_diff :: string where
  "marker_first_diff = unlines [''+++ b/src/foo.txt'', ''@@ -10,2 +10,3 @@'', '' context'', ''+added'']"

definition headerless_diff :: string where
  "headerless_diff = unlines [''--- a/f.txt'', ''+++ b/f.txt'', ''+x'']"

definition markerless_diff :: string where
  "markerless_diff = unlines [''diff --git a/f.txt b/f.txt'', ''@@ -1 +1,2 @@'', ''+x'']"

text \<open>
  A caret on inserted text, and two surroundings: one where every path is a file and
  the window's folder is the repository root \<open>/w\<close>, one with no open folder.
\<close>

definition inserted_at :: "string \<Rightarrow> nat \<Rightarrow> view" where
  "inserted_at txt p = \<lparr>content = txt, sel_a = p, scope_name = ''source.diff markup.inserted.diff ''\<rparr>"

definition in_repo :: goto_env where
  "in_repo = \<lparr>isfile = (\<lambda>_. True), window_folder = Some ''/w'',
              git_root = (\<lambda>d. Some d), user_input = (\<lambda>_ _. None)\<rparr>"

definition no_folder :: goto_env where
  "no_folder = \<lparr>isfile = (\<lambda>_. False), window_folder = None,
                git_root = (\<lambda>d. None), user_input = (\<lambda>_ _. None)\<rparr>"

section \<open>GitDiff: staging, diff and unstaging\<close>

text \<open>
  C1. When untracked paths were staged and the diff command delivers no output, the
  unstage step should still issue its quiet reset naming those paths. The code does not:
  with one untracked file \<open>new.txt\<close> and an empty diff of the current file, the run
  issues the status query, the staging command and the diff, shows \<open>No output\<close> and
  returns from \<open>diff_done\<close> before \<open>reset_untracked_files\<close>: no reset is issued and
  \<open>new.txt\<close> stays staged.
\<close>

theorem empty_output_skips_reset:
  "diff_run (tree True (''?? new.txt'' @ [nl]) []) False fresh_self =
     Done \<lparr>events = [RunCommand [''git'', ''status'', ''-uall'', ''--porcelain''],
                      RunCommand [''git'', ''add'', ''.'', ''-N''],
                      RunCommand [''git'', ''diff'', ''--no-color'', ''--'', ''a.txt''],
                      Panel ''No output''],
            ignore_whitespace = False, empty_stages = Some [''new.txt'']\<rparr>"
  by code_simp

text \<open>
  C2. With staging of untracked files enabled, the diff command should be issued and
  its output displayed once the stage step is over, also when the status query reports
  no untracked entry. The code does not: with a status output that has no \<open>??\<close> line
  the run ends after the status query, although the diff would have had output; no
  diff command is issued and nothing is displayed.
\<close>

theorem no_untracked_never_diffs:
  "diff_run (tree True ('' M a.txt'' @ [nl]) ''diff --git a/a.txt b/a.txt'') False fresh_self =
     Done \<lparr>events = [RunCommand [''git'', ''status'', ''-uall'', ''--porcelain'']],
            ignore_whitespace = False, empty_stages = Some []\<rparr>"
  by code_simp

text \<open>
  C10. With \<open>diff_untracked_files\<close> disabled and a diff that has output, \<open>diff_done\<close>
  should display the diff and finish, the unstage step doing nothing. On a command
  object whose \<open>empty_stages\<close> was never assigned the code displays the diff and then
  raises in \<open>reset_untracked_files\<close>, which reads the missing attribute.
\<close>

theorem disabled_staging_raises:
  "diff_run (tree False [] ''diff --git a/a.txt b/a.txt'') False fresh_self =
     Raised (NoAttribute ''empty_stages'')
       \<lparr>events = [RunCommand [''git'', ''diff'', ''--no-color'', ''--'', ''a.txt''],
                  Scratch ''diff --git a/a.txt b/a.txt''],
        ignore_whitespace = False, empty_stages = None\<rparr>"
  by code_simp

section \<open>GitGotoDiff: missing header, missing file marker\<close>

text \<open>
  C5. When the scan finds a \<open>+++ b/\<close> line but no hunk header above the caret, the
  navigation should end with the \<open>No hunk info\<close> message and no exception. In the
  view \<open>headerless_diff\<close>, caret on \<open>+x\<close>, the scan returns the file name and no hunk
  line, and the code passes \<open>None\<close> to \<open>re.match\<close>: it raises, and no message is shown.
\<close>

theorem missing_header_raises:
  "scan_up headerless_diff (line_a headerless_diff 25) None 0 = (Some ''f.txt'', None, 1) \<and>
   raised (goto_run in_repo (inserted_at headerless_diff 25) fresh_goto) = Some ReMatchOnNone \<and>
   events (final (goto_run in_repo (inserted_at headerless_diff 25) fresh_goto)) = []"
  by code_simp

text \<open>
  C6. When the scan reaches the top of the text without a \<open>+++ b/\<close> line, the
  navigation should stop without an exception and without resolving a path. In the view
  \<open>markerless_diff\<close>, caret on \<open>+x\<close>, the scan returns a well-formed header and no file
  name, and the code goes on to the path resolution with \<open>self.file_name = None\<close>: it
  raises in \<open>os.path.join\<close> when a base directory is known and in \<open>os.path.isfile\<close>
  when none is.
\<close>

theorem missing_file_marker_raises:
  "scan_up markerless_diff (line_a markerless_diff 43) None 0 = (None, Some ''@@ -1 +1,2 @@'', 1) \<and>
   raised (goto_run in_repo (inserted_at markerless_diff 43) fresh_goto) = Some PathJoinOnNone \<and>
   raised (goto_run no_folder (inserted_at markerless_diff 43) fresh_goto) = Some IsfileOnNone"
  by code_simp

section \<open>The hunk header pattern and its parser\<close>

text \<open>The parser accepts exactly the lines of the pattern, with the groups the pattern names.\<close>

lemma re_lit_app: "re_lit p (p @ r) = Some r"
  by (simp add: re_lit_def)

lemma re_lit_Some: "re_lit p s = Some r \<Longrightarrow> s = p @ r"
  by (auto simp: re_lit_def prefix_def split: if_splits)

lemma takeWhile_stop: "r = [] \<or> \<not> P (hd r) \<Longrightarrow> takeWhile P r = []"
  by (cases r) auto

lemma dropWhile_stop: "r = [] \<or> \<not> P (hd r) \<Longrightarrow> dropWhile P r = r"
  by (cases r) auto

lemma re_digits_app:
  assumes "digit_string a" "r = [] \<or> \<not> is_digit (hd r)"
  shows "re_digits (a @ r) = Some (a, r)"
proof -
  from assms(1) have all: "\<forall>x\<in>set a. is_digit x" and ne: "a \<noteq> []"
    by (auto simp: digit_string_def list_all_iff)
  have "takeWhile is_digit (a @ r) = a"
    using all assms(2) by (simp add: takeWhile_append2 takeWhile_stop)
  moreover have "dropWhile is_digit (a @ r) = r"
    using all assms(2) by (simp add: dropWhile_append2 dropWhile_stop)
  ultimately show ?thesis using ne by (simp add: re_digits_def)
qed

lemma re_digits_Some:
  assumes "re_digits s = Some (d, r)"
  shows "s = d @ r \<and> digit_string d"
proof -
  from assms have d: "d = takeWhile is_digit s" and r: "r = dropWhile is_digit s" and ne: "d \<noteq> []"
    by (auto simp: re_digits_def Let_def split: if_splits)
  have "list_all is_digit d" unfolding d list_all_iff by (auto dest: set_takeWhileD)
  with d r ne show ?thesis by (simp add: digit_string_def)
qed

lemma re_opt_len_app:
  assumes "opt_digit_string b" "\<not> prefix '','' r" "r = [] \<or> \<not> is_digit (hd r)"
  shows "re_opt_len (opt_len b @ r) = (b, r)"
proof (cases b)
  case None
  with assms(2) show ?thesis by (simp add: re_opt_len_def opt_len_def re_lit_def)
next
  case (Some d)
  with assms(1) have "digit_string d" by (simp add: opt_digit_string_def)
  then have "re_digits (d @ r) = Some (d, r)" using assms(3) by (rule re_digits_app)
  moreover have "re_lit '','' ('','' @ d @ r) = Some (d @ r)" by (rule re_lit_app)
  ultimately show ?thesis using Some by (simp add: re_opt_len_def opt_len_def)
qed

lemma re_opt_len_sound:
  assumes "re_opt_len s = (x, r)"
  shows "s = opt_len x @ r \<and> opt_digit_string x"
proof (cases "re_lit '','' s")
  case None
  with assms show ?thesis by (simp add: re_opt_len_def opt_len_def opt_digit_string_def)
next
  case (Some t)
  then have s: "s = '','' @ t" by (rule re_lit_Some)
  show ?thesis
  proof (cases "re_digits t")
    case None
    with Some assms show ?thesis by (simp add: re_opt_len_def opt_len_def opt_digit_string_def)
  next
    case (Some p)
    obtain d r' where p: "p = (d, r')" by (cases p)
    with Some have "t = d @ r' \<and> digit_string d" by (simp add: re_digits_Some)
    moreover from assms \<open>re_lit '','' s = Some t\<close> Some p have "x = Some d" "r = r'"
      by (simp_all add: re_opt_len_def)
    ultimately show ?thesis using s by (simp add: opt_len_def opt_digit_string_def)
  qed
qed

lemma opt_len_hd: "opt_len b @ CHR '' '' # r = [] \<or> \<not> is_digit (hd (opt_len b @ CHR '' '' # r))"
  by (cases b) (simp_all add: opt_len_def is_digit_def)

lemma hunk_re_complete:
  assumes "hunk_pattern line a b c d"
  shows "hunk_re line = Some (a, b, c, d)"
proof -
  from assms obtain rest where
    line: "line = ''@@ -'' @ a @ opt_len b @ '' +'' @ c @ opt_len d @ '' @@'' @ rest"
    and a: "digit_string a" and b: "opt_digit_string b" and c: "digit_string c" and d: "opt_digit_string d"
    by (auto simp: hunk_pattern_def prefix_def)
  let ?r6 = "'' @@'' @ rest"
  let ?r5 = "opt_len d @ ?r6"
  let ?r4 = "c @ ?r5"
  let ?r3 = "'' +'' @ ?r4"
  let ?r2 = "opt_len b @ ?r3"
  let ?r1 = "a @ ?r2"
  have 1: "re_lit ''@@ -'' line = Some ?r1" unfolding line by (rule re_lit_app)
  have 2: "re_digits ?r1 = Some (a, ?r2)"
    using a opt_len_hd[of b "''+'' @ ?r4"] by (intro re_digits_app) simp_all
  have 3: "re_opt_len ?r2 = (b, ?r3)"
    using b by (intro re_opt_len_app) (simp_all add: is_digit_def)
  have 4: "re_lit '' +'' ?r3 = Some ?r4" by (rule re_lit_app)
  have 5: "re_digits ?r4 = Some (c, ?r5)"
    using c opt_len_hd[of d "''@@'' @ rest"] by (intro re_digits_app) simp_all
  have 6: "re_opt_len ?r5 = (d, ?r6)"
    using d by (intro re_opt_len_app) (simp_all add: is_digit_def)
  have 7: "re_lit '' @@'' ?r6 = Some rest" by (rule re_lit_app)
  show ?thesis unfolding hunk_re_def by (simp only: 1 2 3 4 5 6 7 option.case prod.case)
qed

lemma hunk_re_sound:
  assumes "hunk_re line = Some (a, b, c, d)"
  shows "hunk_pattern line a b c d"
proof -
  from assms obtain r1 r2 r3 r4 r5 r6 r7 where
    1: "re_lit ''@@ -'' line = Some r1" and 2: "re_digits r1 = Some (a, r2)"
    and 3: "re_opt_len r2 = (b, r3)" and 4: "re_lit '' +'' r3 = Some r4"
    and 5: "re_digits r4 = Some (c, r5)" and 6: "re_opt_len r5 = (d, r6)"
    and 7: "re_lit '' @@'' r6 = Some r7"
    by (auto simp: hunk_re_def split: option.splits prod.splits)
  have "line = ''@@ -'' @ a @ opt_len b @ '' +'' @ c @ opt_len d @ '' @@'' @ r7"
    using re_lit_Some[OF 1] re_digits_Some[OF 2] re_opt_len_sound[OF 3] re_lit_Some[OF 4]
      re_digits_Some[OF 5] re_opt_len_sound[OF 6] re_lit_Some[OF 7] by simp
  then have "prefix (''@@ -'' @ a @ opt_len b @ '' +'' @ c @ opt_len d @ '' @@'') line"
    by (simp add: prefix_def)
  then show ?thesis
    using re_digits_Some[OF 2] re_opt_len_sound[OF 3] re_digits_Some[OF 5] re_opt_len_sound[OF 6]
    by (simp add: hunk_pattern_def)
qed


text \<open>
  C7. For every line that matches the hunk header pattern (whatever follows the closing
  \<open>@@\<close>), parsing yields as new start the number \<open>c\<close> that follows the \<open>+\<close>, whether
  or not the lengths \<open>b\<close> and \<open>d\<close> are present; for every line that does not match the
  pattern, parsing fails (the branch that reports \<open>No hunk info\<close>) and yields no header.
\<close>

theorem hunk_header_parse:
  "(hunk_pattern line a b c d \<longrightarrow> parse_hunk (Some line) = Inr (Some (int_of_digits c))) \<and>
   ((\<nexists>a b c d. hunk_pattern line a b c d) \<longrightarrow> parse_hunk (Some line) = Inr None)"
proof (intro conjI impI)
  assume "hunk_pattern line a b c d"
  then show "parse_hunk (Some line) = Inr (Some (int_of_digits c))"
    by (simp add: parse_hunk_def hunk_re_complete)
next
  assume no: "\<nexists>a b c d. hunk_pattern line a b c d"
  have "hunk_re line = None"
  proof (cases "hunk_re line")
    case (Some g)
    obtain a b c d where "g = (a, b, c, d)" by (cases g)
    with Some no hunk_re_sound show ?thesis by blast
  qed
  then show "parse_hunk (Some line) = Inr None" by (simp add: parse_hunk_def)
qed


theorem hunk_header_parse_witness:
  "hunk_pattern ''@@ -1,3 +12 @@ def f():'' ''1'' (Some ''3'') ''12'' None \<and>
   parse_hunk (Some ''@@ -1,3 +12 @@ def f():'') = Inr (Some 12) \<and>
   (\<nexists>a b c d. hunk_pattern ''@@ -1,3 +12 @'' a b c d) \<and>
   parse_hunk (Some ''@@ -1,3 +12 @'') = Inr None"
proof -
  have m: "hunk_pattern ''@@ -1,3 +12 @@ def f():'' ''1'' (Some ''3'') ''12'' None"
    by (simp add: hunk_pattern_def digit_string_def opt_digit_string_def opt_len_def is_digit_def)
  have v: "int_of_digits ''12'' = 12"
    by (simp add: int_of_digits_def digit_val_def)
  have "hunk_re ''@@ -1,3 +12 @'' = None"
    by code_simp
  then have n: "\<nexists>a b c d. hunk_pattern ''@@ -1,3 +12 @'' a b c d"
    using hunk_re_complete by fastforce
  show ?thesis
    using m v n
      hunk_header_parse [of "''@@ -1,3 +12 @@ def f():''" "''1''" "Some ''3''" "''12''" None]
      hunk_header_parse [of "''@@ -1,3 +12 @''"]
    by simp
qed

section \<open>Lines of the view and rounds of the scan\<close>

lemma line_a_in:
  assumes "nl \<notin> set l" "A = [] \<or> last A = nl" "k \<le> length l"
  shows "line_a (A @ l @ B) (length A + k) = length A"
proof -
  have "rev (take (length A + k) (A @ l @ B)) = rev (take k l) @ rev A"
    using assms(3) by simp
  moreover have "takeWhile (\<lambda>c. c \<noteq> nl) (rev (take k l) @ rev A) = rev (take k l) @ takeWhile (\<lambda>c. c \<noteq> nl) (rev A)"
    using assms(1) by (intro takeWhile_append2) (auto dest: in_set_takeD)
  moreover have "takeWhile (\<lambda>c. c \<noteq> nl) (rev A) = []"
    using assms(2) by (intro takeWhile_stop) (auto simp: hd_rev)
  ultimately show ?thesis using assms(3) by (simp add: line_a_def)
qed

lemma line_b_in:
  assumes "nl \<notin> set l" "B = [] \<or> hd B = nl" "k \<le> length l"
  shows "line_b (A @ l @ B) (length A + k) = length A + length l"
proof -
  have "drop (length A + k) (A @ l @ B) = drop k l @ B"
    using assms(3) by simp
  moreover have "takeWhile (\<lambda>c. c \<noteq> nl) (drop k l @ B) = drop k l @ takeWhile (\<lambda>c. c \<noteq> nl) B"
    using assms(1) by (intro takeWhile_append2) (auto dest: in_set_dropD)
  moreover have "takeWhile (\<lambda>c. c \<noteq> nl) B = []"
    using assms(2) by (intro takeWhile_stop) auto
  ultimately show ?thesis using assms(3) by (simp add: line_b_def)
qed

lemma substr_mid: "substr (A @ l @ B) (length A + n) (length A + length l) = drop n l"
  by (simp add: substr_def)

text \<open>One round of the loop, at the start of a line that has a line above it.\<close>

lemma scan_step:
  assumes T: "T = P @ l' @ nl # l @ B"
    and P: "P = [] \<or> last P = nl" and l': "nl \<notin> set l'" and l: "nl \<notin> set l"
    and B: "B = [] \<or> hd B = nl"
  shows "scan_up T (length P + length l' + 1) h off =
    (if prefix ''@@'' l then scan_up T (length P) (if \<not> truthy h then Some l else h) off
     else if prefix ''+++ b/'' l then (Some (strip (drop 6 l)), h, off)
     else if \<not> truthy h \<and> \<not> prefix ''-'' l then scan_up T (length P) h (off + 1)
     else scan_up T (length P) h off)"
proof -
  let ?A = "P @ l' @ [nl]"
  let ?pt = "length P + length l' + 1"
  have T': "T = ?A @ l @ B" using T by simp
  have a: "line_a T ?pt = ?pt"
    using line_a_in[of l ?A 0 B] l unfolding T' by simp
  have b: "line_b T ?pt = ?pt + length l"
    using line_b_in[of l B 0 ?A] l B unfolding T' by simp
  have c: "substr T ?pt (?pt + length l) = l"
    using substr_mid[of ?A l B 0] unfolding T' by simp
  have c6: "substr T (?pt + 6) (?pt + length l) = drop 6 l"
    using substr_mid[of ?A l B 6] unfolding T' by simp
  have up: "line_a T (?pt - 1) = length P"
    using line_a_in[of l' P "length l'" "nl # l @ B"] l' P unfolding T by simp
  show ?thesis
    by (subst scan_up.simps) (simp only: a b c c6 up, simp)
qed

text \<open>The same round at the start of a line, whatever is above it.\<close>

lemma scan_marker:
  assumes T: "T = P @ l @ B"
    and P: "P \<noteq> []" "last P = nl" and l: "nl \<notin> set l" "prefix ''+++ b/'' l"
    and B: "B = [] \<or> hd B = nl"
  shows "scan_up T (length P) h off = (Some (strip (drop 6 l)), h, off)"
proof -
  have a: "line_a T (length P) = length P"
    using line_a_in[of l P 0 B] l P unfolding T by simp
  have b: "line_b T (length P) = length P + length l"
    using line_b_in[of l B 0 P] l B unfolding T by simp
  have c: "substr T (length P) (length P + length l) = l"
    using substr_mid[of P l B 0] unfolding T by simp
  have c6: "substr T (length P + 6) (length P + length l) = drop 6 l"
    using substr_mid[of P l B 6] unfolding T by simp
  from l(2) have no: "\<not> prefix ''@@'' l" by (auto simp: prefix_def)
  show ?thesis
    using P(1) no l(2) by (subst scan_up.simps) (simp only: a b c c6, simp)
qed

lemma unlines_snoc: "unlines (xs @ [x]) = unlines xs @ x @ [nl]"
  by (simp add: unlines_def)

lemma unlines_last: "unlines xs = [] \<or> last (unlines xs) = nl"
  by (induction xs rule: rev_induct) (simp_all add: unlines_def)

lemma last_app_nl:
  "P = [] \<or> last P = nl \<Longrightarrow> X = [] \<or> last X = nl \<Longrightarrow> P @ X = [] \<or> last (P @ X) = nl"
  by (cases "X = []") auto

text \<open>
  Once a hunk line is held, the lines between a file marker and the point are passed
  over: the scan ends at the marker with the hunk line and the count unchanged.
\<close>

lemma scan_to_marker:
  assumes P: "P \<noteq> []" "last P = nl" and mk: "nl \<notin> set mk" "prefix ''+++ b/'' mk"
    and h: "truthy h"
  shows "\<forall>m\<in>set ms. nl \<notin> set m \<and> \<not> prefix ''+++ b/'' m \<Longrightarrow>
     scan_up (P @ unlines (mk # ms) @ R) (length P + length (unlines (butlast (mk # ms)))) h off
       = (Some (strip (drop 6 mk)), h, off)"
proof (induction ms arbitrary: R rule: rev_induct)
  case Nil
  have "scan_up (P @ mk @ nl # R) (length P) h off = (Some (strip (drop 6 mk)), h, off)"
    using P mk by (intro scan_marker[where B = "nl # R"]) simp_all
  then show ?case by (simp add: unlines_def)
next
  case (snoc m ms)
  let ?P = "P @ unlines (butlast (mk # ms))"
  let ?l' = "last (mk # ms)"
  let ?T = "P @ unlines (mk # ms @ [m]) @ R"
  have split: "mk # ms = butlast (mk # ms) @ [?l']"
    using append_butlast_last_id[of "mk # ms"] by simp
  have ul: "unlines (mk # ms) = unlines (butlast (mk # ms)) @ ?l' @ [nl]"
    using split unlines_snoc[of "butlast (mk # ms)" ?l'] by simp
  have ul': "unlines (mk # ms @ [m]) = unlines (mk # ms) @ m @ [nl]"
    using unlines_snoc[of "mk # ms" m] by simp
  have T: "?T = ?P @ ?l' @ nl # m @ (nl # R)"
    unfolding ul' ul by simp
  have Pnl: "?P = [] \<or> last ?P = nl"
    using P(2) unlines_last[of "butlast (mk # ms)"] by (intro last_app_nl) blast+
  have l': "nl \<notin> set ?l'" using mk(1) snoc.prems by auto
  have m: "nl \<notin> set m" "\<not> prefix ''+++ b/'' m" using snoc.prems by auto
  have step: "scan_up ?T (length ?P + length ?l' + 1) h off = scan_up ?T (length ?P) h off"
    using h m(2) by (subst scan_step[OF T Pnl l' m(1)]) simp_all
  have bl: "butlast (mk # ms @ [m]) = mk # ms"
    by (simp add: butlast_append)
  have len: "length (unlines (butlast (mk # ms @ [m]))) = length (unlines (butlast (mk # ms))) + length ?l' + 1"
    unfolding bl using arg_cong[OF ul, of length] by (simp del: butlast.simps last.simps)
  have IH: "scan_up (P @ unlines (mk # ms) @ (m @ nl # R)) (length P + length (unlines (butlast (mk # ms)))) h off
      = (Some (strip (drop 6 mk)), h, off)"
    using snoc.prems by (intro snoc.IH) simp
  have same: "P @ unlines (mk # ms) @ (m @ nl # R) = ?T"
    unfolding ul' by simp
  show ?case
    using step IH unfolding same len by (simp add: add.assoc)
qed

text \<open>With a hunk line held, the loop changes neither the hunk line nor the count.\<close>

lemma scan_keeps:
  "truthy h \<Longrightarrow> snd (scan_up T pt h off) = (h, off)"
proof (induction T pt h off rule: scan_up.induct)
  case (1 T pt h off)
  show ?case
    using "1.prems" "1.IH" by (subst scan_up.simps) (simp del: scan_up.simps)
qed

lemma scan_at:
  assumes T: "T = A @ l @ B"
    and A: "A \<noteq> []" "last A = nl" and l: "nl \<notin> set l"
    and B: "B = [] \<or> hd B = nl"
  shows "scan_up T (length A) h off =
    (if prefix ''@@'' l then scan_up T (line_a T (length A - 1)) (if \<not> truthy h then Some l else h) off
     else if prefix ''+++ b/'' l then (Some (strip (drop 6 l)), h, off)
     else if \<not> truthy h \<and> \<not> prefix ''-'' l then scan_up T (line_a T (length A - 1)) h (off + 1)
     else scan_up T (line_a T (length A - 1)) h off)"
proof -
  have a: "line_a T (length A) = length A"
    using line_a_in[of l A 0 B] l A unfolding T by simp
  have b: "line_b T (length A) = length A + length l"
    using line_b_in[of l B 0 A] l B unfolding T by simp
  have c: "substr T (length A) (length A + length l) = l"
    using substr_mid[of A l B 0] unfolding T by simp
  have c6: "substr T (length A + 6) (length A + length l) = drop 6 l"
    using substr_mid[of A l B 6] unfolding T by simp
  show ?thesis
    using A(1) by (subst scan_up.simps) (simp only: a b c c6, simp)
qed

lemma scan_header_to_marker:
  assumes P: "P \<noteq> []" "last P = nl" and mk: "nl \<notin> set mk" "prefix ''+++ b/'' mk"
    and ms: "\<forall>m\<in>set ms. nl \<notin> set m \<and> \<not> prefix ''+++ b/'' m"
    and x: "prefix ''@@'' x" "nl \<notin> set x" and B: "B = [] \<or> hd B = nl"
  shows "scan_up (P @ unlines (mk # ms) @ x @ B) (length P + length (unlines (mk # ms))) None off
           = (Some (strip (drop 6 mk)), Some x, off)"
proof -
  let ?P = "P @ unlines (butlast (mk # ms))"
  let ?l' = "last (mk # ms)"
  let ?T = "P @ unlines (mk # ms) @ x @ B"
  have split: "mk # ms = butlast (mk # ms) @ [?l']"
    using append_butlast_last_id[of "mk # ms"] by simp
  have ul: "unlines (mk # ms) = unlines (butlast (mk # ms)) @ ?l' @ [nl]"
    using split unlines_snoc[of "butlast (mk # ms)" ?l'] by simp
  have T: "?T = ?P @ ?l' @ nl # x @ B"
    unfolding ul by simp
  have Pnl: "?P = [] \<or> last ?P = nl"
    using P(2) unlines_last[of "butlast (mk # ms)"] by (intro last_app_nl) blast+
  have l': "nl \<notin> set ?l'" using mk(1) ms by auto
  have len: "length (unlines (mk # ms)) = length (unlines (butlast (mk # ms))) + length ?l' + 1"
    using arg_cong[OF ul, of length] by (simp del: butlast.simps last.simps)
  have xt: "truthy (Some x)" using x(1) by (auto simp: truthy_def)
  have step: "scan_up ?T (length ?P + length ?l' + 1) None off = scan_up ?T (length ?P) (Some x) off"
    using x(1) by (subst scan_step[OF T Pnl l' x(2) B]) (simp add: truthy_def)
  have rest: "scan_up (P @ unlines (mk # ms) @ (x @ B)) (length P + length (unlines (butlast (mk # ms)))) (Some x) off
      = (Some (strip (drop 6 mk)), Some x, off)"
    using P mk xt ms by (rule scan_to_marker)
  show ?thesis
    using step rest unfolding len by (simp add: add.assoc)
qed


section \<open>Opening the file\<close>

lemma on_path_confirmed_events:
  assumes "file_name st = Some fn"
  shows "on_path_confirmed d st =
     Done (emit (GotoXY (goto_line st) (column st)) (emit (OpenFile (path_join d fn))
       (if settings st ''git_root_dir'' = Some d then st
        else emit (SettingsSet ''git_root_dir'' d) (st\<lparr>settings := (settings st)(''git_root_dir'' \<mapsto> d)\<rparr>))))"
  using assms by (simp add: on_path_confirmed_def emit_def Let_def)

lemma on_path_confirmed_frame:
  "file_name (final (on_path_confirmed d st)) = file_name st \<and>
   goto_line (final (on_path_confirmed d st)) = goto_line st \<and>
   column (final (on_path_confirmed d st)) = column st"
  by (cases "file_name st") (simp_all add: on_path_confirmed_def emit_def Let_def)

lemma on_path_confirmed_raised:
  "file_name st \<noteq> None \<Longrightarrow> raised (on_path_confirmed d st) = None"
  by (cases "file_name st") (simp_all add: on_path_confirmed_def emit_def Let_def)

lemma resolve_path_frame:
  "file_name (final (resolve_path env st)) = file_name st \<and>
   goto_line (final (resolve_path env st)) = goto_line st \<and>
   column (final (resolve_path env st)) = column st"
  by (cases "file_name st")
     (simp_all add: resolve_path_def Let_def emit_def on_path_confirmed_frame split: option.splits)

lemma resolve_path_raised:
  "file_name st \<noteq> None \<Longrightarrow> raised (resolve_path env st) = None"
  by (cases "file_name st")
     (simp_all add: resolve_path_def Let_def emit_def on_path_confirmed_raised split: option.splits)

lemma py_in_prefix: "prefix s t \<Longrightarrow> py_in s t"
  by (cases t) simp_all

lemma py_in_mid: "py_in s (a @ s @ b)"
proof (induction a)
  case Nil
  show ?case by (simp add: py_in_prefix)
next
  case (Cons x a)
  then show ?case by simp
qed

lemma path_join_Nil: "path_join [] b = b"
  by (simp add: path_join_def)



section \<open>GitGotoDiff: the target of a navigation\<close>

text \<open>
  Where the line \<open>+++ b/src/foo.txt\<close> is not the first line of the view, the hunk
  header \<open>@@ -10,2 +10,3 @@\<close> follows it with no other \<open>+++ b/\<close> line between, and
  the lines \<open> context\<close> and \<open>+added\<close> follow the header, a navigation with the caret at
  the start of the content of \<open>+added\<close> ends without an exception with the file path
  \<open>src/foo.txt\<close>, the line 11 and the column 0.
\<close>

lemma added_line_below_marker:
  assumes P: "P \<noteq> []" "last P = nl"
    and ms: "\<forall>m\<in>set ms. nl \<notin> set m \<and> \<not> prefix ''+++ b/'' m"
    and B: "B = [] \<or> hd B = nl"
    and head: "head = P @ unlines (''+++ b/src/foo.txt'' # ms) @ unlines [''@@ -10,2 +10,3 @@'', '' context'']"
    and v: "content v = head @ ''+added'' @ B" "sel_a v = length head + 1"
           "py_in ''markup.inserted.diff'' (scope_name v)"
  shows "raised (goto_run env v st) = None \<and>
         file_name (final (goto_run env v st)) = Some ''src/foo.txt'' \<and>
         goto_line (final (goto_run env v st)) = 11 \<and>
         column (final (goto_run env v st)) = 0"
proof -
  let ?mk = "''+++ b/src/foo.txt''"
  let ?hdr = "''@@ -10,2 +10,3 @@''"
  let ?ctx = "'' context''"
  let ?cur = "''+added''"
  let ?T = "content v"
  let ?Q = "P @ unlines (?mk # ms)"
  have Q: "?Q = [] \<or> last ?Q = nl"
    using P(2) unlines_last[of "?mk # ms"] by (intro last_app_nl) blast+
  have head': "head = ?Q @ ?hdr @ [nl] @ ?ctx @ [nl]"
    unfolding head by (simp add: unlines_def)
  have T1: "?T = (?Q @ ?hdr @ [nl]) @ ?ctx @ nl # ?cur @ B"
    unfolding v(1) head' by simp
  have T2: "?T = ?Q @ ?hdr @ nl # ?ctx @ (nl # ?cur @ B)"
    unfolding v(1) head' by simp
  have T3: "?T = P @ unlines (?mk # ms) @ ?hdr @ (nl # ?ctx @ nl # ?cur @ B)"
    unfolding v(1) head' by simp
  have pt: "line_a ?T (sel_a v) = length head"
    using line_a_in[of ?cur head 1 B] P(2) unfolding v(1) v(2) head' by simp
  have s1: "scan_up ?T (length head) None 0 = scan_up ?T (length (?Q @ ?hdr @ [nl])) None 1"
  proof -
    have "scan_up ?T (length (?Q @ ?hdr @ [nl]) + length ?ctx + 1) None 0
        = scan_up ?T (length (?Q @ ?hdr @ [nl])) None 1"
      using B by (subst scan_step[OF T1]) (simp_all add: truthy_def)
    then show ?thesis unfolding head' by simp
  qed
  have s2: "scan_up ?T (length (?Q @ ?hdr @ [nl])) None 1 = scan_up ?T (length ?Q) None 2"
  proof -
    have "scan_up ?T (length ?Q + length ?hdr + 1) None 1 = scan_up ?T (length ?Q) None 2"
      using Q by (subst scan_step[OF T2]) (simp_all add: truthy_def)
    then show ?thesis by simp
  qed
  have s3: "scan_up ?T (length ?Q) None 2 = (Some (strip (drop 6 ?mk)), Some ?hdr, 2)"
  proof -
    have "scan_up (P @ unlines (?mk # ms) @ ?hdr @ (nl # ?ctx @ nl # ?cur @ B))
            (length P + length (unlines (?mk # ms))) None 2
          = (Some (strip (drop 6 ?mk)), Some ?hdr, 2)"
      using P _ _ ms by (rule scan_header_to_marker) simp_all
    then show ?thesis unfolding T3 by simp
  qed
  have path: "strip (drop 6 ?mk) = ''src/foo.txt''" by code_simp
  have hunk: "parse_hunk (Some ?hdr) = Inr (Some 10)" by code_simp
  have scan: "scan_up ?T (line_a ?T (sel_a v)) None 0 = (Some ''src/foo.txt'', Some ?hdr, 2)"
    using s1 s2 s3 path unfolding pt by simp
  have col: "int (sel_a v) - int (line_a ?T (sel_a v)) - 1 = 0"
    using pt v(2) by simp
  define st' where "st' = st\<lparr>column := 0, file_name := Some ''src/foo.txt'', goto_line := 11\<rparr>"
  have run: "goto_run env v st = resolve_path env st'"
    using v(3) scan col hunk by (simp add: goto_run_def Let_def st'_def del: py_in.simps)
  show ?thesis
    unfolding run using resolve_path_frame[of env st'] resolve_path_raised[of st' env]
    by (simp add: st'_def)
qed


lemma added_line_in_foo_diff:
  "content (inserted_at foo_diff 103) =
     (''diff --git a/src/foo.txt b/src/foo.txt'' @ [nl] @ ''--- a/src/foo.txt'' @ [nl] @
      unlines [''+++ b/src/foo.txt''] @ unlines [''@@ -10,2 +10,3 @@'', '' context''])
     @ ''+added'' @ [nl] \<and>
   sel_a (inserted_at foo_diff 103) = 102 + 1 \<and>
   py_in ''markup.inserted.diff'' (scope_name (inserted_at foo_diff 103)) \<and>
   raised (goto_run in_repo (inserted_at foo_diff 103) fresh_goto) = None \<and>
   file_name (final (goto_run in_repo (inserted_at foo_diff 103) fresh_goto)) = Some ''src/foo.txt'' \<and>
   goto_line (final (goto_run in_repo (inserted_at foo_diff 103) fresh_goto)) = 11 \<and>
   column (final (goto_run in_repo (inserted_at foo_diff 103) fresh_goto)) = 0"
  using added_line_below_marker [of "''diff --git a/src/foo.txt b/src/foo.txt'' @ [nl] @ ''--- a/src/foo.txt'' @ [nl]"
      "[]" "[nl]"
      "''diff --git a/src/foo.txt b/src/foo.txt'' @ [nl] @ ''--- a/src/foo.txt'' @ [nl] @
       unlines [''+++ b/src/foo.txt''] @ unlines [''@@ -10,2 +10,3 @@'', '' context'']"
      "inserted_at foo_diff 103" in_repo fresh_goto]
  by (simp add: foo_diff_def unlines_def inserted_at_def)

text \<open>
  C3. For a diff text that has the line \<open>+++ b/src/foo.txt\<close>, later the hunk
  \<open>@@ -10,2 +10,3 @@\<close>, then \<open> context\<close>, then \<open>+added\<close>, a navigation with the caret
  at the start of the content of \<open>+added\<close> should yield the file path \<open>src/foo.txt\<close>,
  the line 11 and the column 0. In \<open>marker_first_diff\<close>, where the \<open>+++ b/\<close> line is
  the first line of the view, the code computes the line 11 and the column 0, but the
  loop \<open>while pt > 0\<close> ends before it reads the line at offset 0: \<open>self.file_name\<close>
  stays \<open>None\<close>, the run raises in the path resolution, and no file is opened.
\<close>

theorem marker_on_first_line_raises:
  "scan_up marker_first_diff (line_a marker_first_diff 46) None 0 = (None, Some ''@@ -10,2 +10,3 @@'', 2) \<and>
   raised (goto_run in_repo (inserted_at marker_first_diff 46) fresh_goto) = Some PathJoinOnNone \<and>
   raised (goto_run no_folder (inserted_at marker_first_diff 46) fresh_goto) = Some IsfileOnNone \<and>
   file_name (final (goto_run in_repo (inserted_at marker_first_diff 46) fresh_goto)) = None \<and>
   goto_line (final (goto_run in_repo (inserted_at marker_first_diff 46) fresh_goto)) = 11 \<and>
   column (final (goto_run in_repo (inserted_at marker_first_diff 46) fresh_goto)) = 0 \<and>
   events (final (goto_run in_repo (inserted_at marker_first_diff 46) fresh_goto)) = []"
  by code_simp

text \<open>
  C4, as the specification states it: with the caret on the first added line directly
  below the header, the line offset is 0 and the target line is the header's new start
  minus 1. In \<open>synthetic_diff\<close>, whose header is \<open>@@ -1,3 +1,4 @@\<close>, with the caret on
  \<open>+x\<close>, the loop begins at the caret's own line and counts it: the line offset is 1
  and the target line is 1, not 0.
\<close>

theorem caret_line_is_counted:
  "snd (snd (scan_up synthetic_diff (line_a synthetic_diff 41) None 0)) \<noteq> 0 \<and>
   goto_line (final (goto_run in_repo (inserted_at synthetic_diff 41) fresh_goto)) \<noteq> 1 - 1"
  by code_simp

text \<open>
  C4, amended. In a view where a hunk header (not the first line of the view) is
  directly followed by an added line, one that begins with \<open>+\<close> and is not a \<open>+++ b/\<close>
  line, a navigation with the caret anywhere on that line leaves the loop with that
  header and the line offset 1, the caret's own line being the one line counted; and
  when the header matches the pattern with new start \<open>c\<close>, the target line
  \<open>new_start + line_offset - 1\<close> is \<open>c\<close> itself.
\<close>

theorem first_added_line_offset:
  assumes A: "A \<noteq> []" "last A = nl"
    and hdr: "prefix ''@@'' hdr" "nl \<notin> set hdr"
    and cur: "prefix ''+'' cur" "\<not> prefix ''+++ b/'' cur" "nl \<notin> set cur"
    and B: "B = [] \<or> hd B = nl"
    and v: "content v = A @ hdr @ nl # cur @ B"
           "length A + length hdr + 1 \<le> sel_a v" "sel_a v \<le> length A + length hdr + 1 + length cur"
           "py_in ''markup.inserted.diff'' (scope_name v)"
  shows "snd (scan_up (content v) (line_a (content v) (sel_a v)) None 0) = (Some hdr, 1) \<and>
         (hunk_pattern hdr a b c d \<longrightarrow>
            goto_line (final (goto_run env v st)) = int_of_digits c)"
proof -
  let ?T = "content v"
  obtain k where k: "sel_a v = length (A @ hdr @ [nl]) + k" "k \<le> length cur"
    using v(2,3) by (metis add.assoc le_Suc_ex length_append length_append_singleton nat_add_left_cancel_le Suc_eq_plus1)
  have T1: "?T = (A @ hdr @ [nl]) @ cur @ B" unfolding v(1) by simp
  have pt: "line_a ?T (sel_a v) = length A + length hdr + 1"
    using line_a_in[of cur "A @ hdr @ [nl]" k B] cur(3) k(2) unfolding T1 k(1) by simp
  have An: "A = [] \<or> last A = nl" using A(2) by simp
  have n1: "\<not> prefix ''@@'' cur" "\<not> prefix ''-'' cur"
    using cur(1) by (auto simp: prefix_def)
  have s1: "scan_up ?T (length A + length hdr + 1) None 0 = scan_up ?T (length A) None 1"
    using n1 cur(2) by (subst scan_step[OF v(1) An hdr(2) cur(3) B]) (simp add: truthy_def)
  have T2: "?T = A @ hdr @ (nl # cur @ B)" unfolding v(1) by simp
  have ht: "truthy (Some hdr)" using hdr(1) by (auto simp: truthy_def)
  have s2: "scan_up ?T (length A) None 1 = scan_up ?T (line_a ?T (length A - 1)) (Some hdr) 1"
    using hdr(1) by (subst scan_at[OF T2 A hdr(2)]) (simp_all add: truthy_def)
  have scan: "snd (scan_up ?T (line_a ?T (sel_a v)) None 0) = (Some hdr, 1)"
    unfolding pt s1 s2 using ht by (rule scan_keeps)
  have "goto_line (final (goto_run env v st)) = int_of_digits c" if pat: "hunk_pattern hdr a b c d"
  proof -
    obtain fn where sc: "scan_up ?T (line_a ?T (sel_a v)) None 0 = (fn, Some hdr, 1)"
      using scan by (cases "scan_up ?T (line_a ?T (sel_a v)) None 0") auto
    have hunk: "parse_hunk (Some hdr) = Inr (Some (int_of_digits c))"
      using pat by (simp add: parse_hunk_def hunk_re_complete)
    show ?thesis
      using v(4) sc hunk resolve_path_frame
      by (simp add: goto_run_def Let_def del: py_in.simps)
  qed
  with scan show ?thesis by simp
qed

theorem first_added_line_offset_witness:
  "content (inserted_at synthetic_diff 41) =
     (''--- a/f.txt'' @ [nl] @ ''+++ b/f.txt'' @ [nl]) @ ''@@ -1,3 +1,4 @@'' @ nl # ''+x'' @
     ([nl] @ ''+y'' @ [nl] @ '' z'' @ [nl] @ ''-w'' @ [nl]) \<and>
   sel_a (inserted_at synthetic_diff 41) = 41 \<and>
   py_in ''markup.inserted.diff'' (scope_name (inserted_at synthetic_diff 41)) \<and>
   hunk_pattern ''@@ -1,3 +1,4 @@'' ''1'' (Some ''3'') ''1'' (Some ''4'') \<and>
   snd (scan_up (content (inserted_at synthetic_diff 41))
         (line_a (content (inserted_at synthetic_diff 41)) (sel_a (inserted_at synthetic_diff 41)))
         None 0) = (Some ''@@ -1,3 +1,4 @@'', 1) \<and>
   goto_line (final (goto_run in_repo (inserted_at synthetic_diff 41) fresh_goto)) = 1"
proof -
  have m: "hunk_pattern ''@@ -1,3 +1,4 @@'' ''1'' (Some ''3'') ''1'' (Some ''4'')"
    by (simp add: hunk_pattern_def digit_string_def opt_digit_string_def opt_len_def is_digit_def)
  have n: "int_of_digits ''1'' = 1"
    by (simp add: int_of_digits_def digit_val_def)
  show ?thesis
    using m n first_added_line_offset [of "''--- a/f.txt'' @ [nl] @ ''+++ b/f.txt'' @ [nl]"
      "''@@ -1,3 +1,4 @@''" "''+x''" "[nl] @ ''+y'' @ [nl] @ '' z'' @ [nl] @ ''-w'' @ [nl]"
      "inserted_at synthetic_diff 41" "''1''" "Some ''3''" "''1''" "Some ''4''" in_repo fresh_goto]
    by (simp add: synthetic_diff_def unlines_def inserted_at_def)
qed

section \<open>GitGotoDiff: resolving and remembering the base directory\<close>

text \<open>
  C8. When the path resolution runs for a file name \<open>fn\<close>: if the composed path (the
  candidate base joined with \<open>fn\<close>, or \<open>fn\<close> alone when there is no base) is a file, no
  input panel is shown and that path is opened; if it is not a file, the input panel
  is shown first, its initial text the candidate base (or the empty string) and its
  caption containing \<open>fn\<close>.
\<close>

theorem resolve_path_prompt:
  assumes "file_name st = Some fn"
  shows "let g = candidate_base env st;
             full = (if truthy g then path_join (the g) fn else fn);
             pre = (if truthy g then the g else []);
             cap = ''Enter base directory for file '' @ [CHR 0x27] @ fn @ [CHR 0x27] @ '':''
         in (isfile env full \<longrightarrow>
               events (final (resolve_path env st)) =
                 events st @ (if settings st ''git_root_dir'' = Some pre then []
                              else [SettingsSet ''git_root_dir'' pre])
                 @ [OpenFile full, GotoXY (goto_line st) (column st)]) \<and>
            (\<not> isfile env full \<longrightarrow>
               py_in fn cap \<and>
               events (final (resolve_path env st)) =
                 events st @ [ShowInputPanel cap pre] @
                   (case user_input env cap pre of
                      None \<Rightarrow> []
                    | Some d \<Rightarrow>
                        (if settings st ''git_root_dir'' = Some d then []
                         else [SettingsSet ''git_root_dir'' d])
                        @ [OpenFile (path_join d fn), GotoXY (goto_line st) (column st)]))"
proof -
  have cap: "py_in fn (''Enter base directory for file '' @ [CHR 0x27] @ fn @ [CHR 0x27] @ '':'')"
    using py_in_mid[of fn "''Enter base directory for file '' @ [CHR 0x27]" "[CHR 0x27] @ '':''"]
    by simp
  have ev: "\<And>d s. file_name s = Some fn \<Longrightarrow> events (final (on_path_confirmed d s)) =
      events s @ (if settings s ''git_root_dir'' = Some d then [] else [SettingsSet ''git_root_dir'' d])
        @ [OpenFile (path_join d fn), GotoXY (goto_line s) (column s)]"
    by (simp add: on_path_confirmed_events emit_def)
  show ?thesis
  proof (cases "truthy (candidate_base env st)")
    case True
    then show ?thesis
      using assms cap
      by (simp add: resolve_path_def Let_def ev emit_def split: option.splits del: py_in.simps)
  next
    case False
    then show ?thesis
      using assms cap
      by (simp add: resolve_path_def Let_def ev emit_def path_join_Nil split: option.splits del: py_in.simps)
  qed
qed


theorem resolve_path_prompt_witness:
  "isfile in_repo ''/w/src/foo.txt'' \<and>
   events (final (resolve_path in_repo (fresh_goto\<lparr>file_name := Some ''src/foo.txt''\<rparr>))) =
     [SettingsSet ''git_root_dir'' ''/w'', OpenFile ''/w/src/foo.txt'', GotoXY 0 0] \<and>
   \<not> isfile no_folder ''src/foo.txt'' \<and>
   py_in ''src/foo.txt'' (''Enter base directory for file '' @ [CHR 0x27] @ ''src/foo.txt'' @ [CHR 0x27] @ '':'') \<and>
   events (final (resolve_path no_folder (fresh_goto\<lparr>file_name := Some ''src/foo.txt''\<rparr>))) =
     [ShowInputPanel (''Enter base directory for file '' @ [CHR 0x27] @ ''src/foo.txt'' @ [CHR 0x27] @ '':'') []]"
  using resolve_path_prompt [of "fresh_goto\<lparr>file_name := Some ''src/foo.txt''\<rparr>" "''src/foo.txt''" in_repo]
    resolve_path_prompt [of "fresh_goto\<lparr>file_name := Some ''src/foo.txt''\<rparr>" "''src/foo.txt''" no_folder]
  by (simp add: Let_def candidate_base_def truthy_def in_repo_def no_folder_def fresh_goto_def
        path_join_def del: py_in.simps)

text \<open>
  C9. On a path confirmation that opens the file, the stored base directory is written
  exactly when the confirmed base differs from the stored value: if they are equal the
  settings are unchanged and no write is issued; otherwise only the key
  \<open>git_root_dir\<close> is set, once. Nothing else is written.
\<close>

theorem confirmed_base_written:
  assumes "file_name st = Some fn"
  shows "raised (on_path_confirmed d st) = None \<and>
     settings (final (on_path_confirmed d st)) =
       (if settings st ''git_root_dir'' = Some d then settings st
        else (settings st)(''git_root_dir'' \<mapsto> d)) \<and>
     events (final (on_path_confirmed d st)) =
       events st @ (if settings st ''git_root_dir'' = Some d then []
                    else [SettingsSet ''git_root_dir'' d])
       @ [OpenFile (path_join d fn), GotoXY (goto_line st) (column st)]"
  using assms by (simp add: on_path_confirmed_events emit_def)

theorem confirmed_base_written_witness:
  "file_name (fresh_goto\<lparr>file_name := Some ''f.txt''\<rparr>) = Some ''f.txt'' \<and>
   events (final (on_path_confirmed ''/w'' (fresh_goto\<lparr>file_name := Some ''f.txt''\<rparr>))) =
     [SettingsSet ''git_root_dir'' ''/w'', OpenFile ''/w/f.txt'', GotoXY 0 0] \<and>
   settings (final (on_path_confirmed ''/w'' (fresh_goto\<lparr>file_name := Some ''f.txt''\<rparr>))) ''git_root_dir''
     = Some ''/w'' \<and>
   events (final (on_path_confirmed ''/w''
       (fresh_goto\<lparr>file_name := Some ''f.txt'', settings := [''git_root_dir'' \<mapsto> ''/w'']\<rparr>))) =
     [OpenFile ''/w/f.txt'', GotoXY 0 0]"
  using confirmed_base_written [of "fresh_goto\<lparr>file_name := Some ''f.txt''\<rparr>" "''f.txt''" "''/w''"]
    confirmed_base_written [of "fresh_goto\<lparr>file_name := Some ''f.txt'', settings := [''git_root_dir'' \<mapsto> ''/w'']\<rparr>" "''f.txt''" "''/w''"]
  by (simp add: fresh_goto_def path_join_def)

end
